theory Spec2Isabelle
  imports Main
begin

section \<open>Strings of the voter-registration application\<close>

text \<open>
  The application (\<^verbatim>\<open>app/models.py\<close>, \<^verbatim>\<open>app/forms.py\<close>) works on Python
  \<^verbatim>\<open>str\<close> values. A string is modelled as a \<^typ>\<open>string\<close>, each \<^typ>\<open>char\<close>
  standing for the code point of the same number, so the model covers the code points
  U+0000 to U+00FF. On these \<^verbatim>\<open>str.lower\<close> works character by character and
  \<^verbatim>\<open>str.strip\<close> removes the characters for which \<^verbatim>\<open>str.isspace\<close> holds.
\<close>

definition newline :: char where
  "newline = CHR 0x0A"

text \<open>The code points below U+0100 that Python counts as whitespace.\<close>

definition isspace :: "char \<Rightarrow> bool" where
  "isspace c = ((of_char c :: nat) \<in> set [9, 10, 11, 12, 13, 28, 29, 30, 31, 32, 133, 160])"

text \<open>
  Lower-casing of one code point: the letters A to Z, and the upper-case letters of the
  Latin-1 block (U+00C0 to U+00DE without the multiplication sign U+00D7), move up by
  32; every other code point stays.
\<close>

definition is_upper :: "char \<Rightarrow> bool" where
  "is_upper c = (let n = (of_char c :: nat) in
     (65 \<le> n \<and> n \<le> 90) \<or> (192 \<le> n \<and> n \<le> 222 \<and> n \<noteq> 215))"

definition lower_char :: "char \<Rightarrow> char" where
  "lower_char c = (if is_upper c then char_of ((of_char c :: nat) + 32) else c)"

definition lower :: "string \<Rightarrow> string" where
  "lower s = map lower_char s"

definition lstrip :: "string \<Rightarrow> string" where
  "lstrip s = dropWhile isspace s"

definition rstrip :: "string \<Rightarrow> string" where
  "rstrip s = rev (dropWhile isspace (rev s))"

definition strip :: "string \<Rightarrow> string" where
  "strip s = rstrip (lstrip s)"

text \<open>
  \<^verbatim>\<open>s.split('\n')\<close>: the pieces of \<open>s\<close> between the line feeds, in order. The
  result is never empty; the empty string gives one empty piece.
\<close>

fun split_nl :: "string \<Rightarrow> string list" where
  "split_nl [] = [[]]"
| "split_nl (c # cs) =
     (if c = newline then [] # split_nl cs
      else (case split_nl cs of
              [] \<Rightarrow> [[c]]
            | l # ls \<Rightarrow> (c # l) # ls))"

section \<open>The models\<close>

text \<open>
  \<^verbatim>\<open>RegisteredVoter\<close>: a primary key and the text field \<^verbatim>\<open>names\<close>, one eligible
  name per line.
\<close>

record RegisteredVoter =
  list_pk :: nat
  names :: string

text \<open>
  \<^verbatim>\<open>get_eligible_names\<close>:
  \<^verbatim>\<open>
  if self.names:
      return [name.strip().lower() for name in self.names.split('\n') if name.strip()]
  return []
  \<close>
  An empty string is falsy in Python, both for the text and for a stripped line.
\<close>

definition get_eligible_names :: "RegisteredVoter \<Rightarrow> string list" where
  "get_eligible_names self =
     (if names self \<noteq> []
      then map (\<lambda>name. lower (strip name))
             (filter (\<lambda>name. strip name \<noteq> []) (split_nl (names self)))
      else [])"

text \<open>
  \<^verbatim>\<open>Voter\<close>: the four unique fields, the primary key (\<open>None\<close> before the first
  save) and the nullable foreign key \<^verbatim>\<open>registered_list\<close>.
\<close>

record Voter =
  voter_pk :: "nat option"
  fullname :: string
  email :: string
  telephone :: string
  student_id :: string
  registered_list :: "RegisteredVoter option"

text \<open>
  The database: the rows of both tables. \<^verbatim>\<open>RegisteredVoter.objects.all()\<close> yields
  \<open>registered_voters\<close> in the order of retrieval.
\<close>

record database =
  registered_voters :: "RegisteredVoter list"
  voters :: "Voter list"

text \<open>
  The exceptions that reach the caller of \<^verbatim>\<open>save\<close>. \<^verbatim>\<open>forms.ValidationError\<close> is
  the framework's \<^verbatim>\<open>ValidationError\<close> under another name; the model and the form
  raise it with different messages.
\<close>

datatype message = NotInRegisteredList | NotInRegisteredListForm

datatype error = ValidationError message | IntegrityError

text \<open>
  \<^verbatim>\<open>Voter.is_eligible_voter\<close>:
  \<^verbatim>\<open>
  registered_lists = RegisteredVoter.objects.all()
  for voter_list in registered_lists:
      eligible_names = voter_list.get_eligible_names()
      if fullname.lower().strip() in eligible_names:
          return voter_list
  return None
  \<close>
\<close>

text \<open>
  The test of the loop body, \<^verbatim>\<open>fullname.lower().strip() in eligible_names\<close>, on one
  list: membership in a Python list compares strings by equality.
\<close>

definition is_member :: "string \<Rightarrow> RegisteredVoter \<Rightarrow> bool" where
  "is_member candidate voter_list =
     (strip (lower candidate) \<in> set (get_eligible_names voter_list))"

fun is_eligible_voter_loop :: "RegisteredVoter list \<Rightarrow> string \<Rightarrow> RegisteredVoter option" where
  "is_eligible_voter_loop [] candidate = None"
| "is_eligible_voter_loop (voter_list # rest) candidate =
     (if is_member candidate voter_list
      then Some voter_list
      else is_eligible_voter_loop rest candidate)"

definition is_eligible_voter :: "database \<Rightarrow> string \<Rightarrow> RegisteredVoter option" where
  "is_eligible_voter db candidate = is_eligible_voter_loop (registered_voters db) candidate"

text \<open>
  \<^verbatim>\<open>Voter.clean\<close>: raises \<^verbatim>\<open>ValidationError\<close> when no list matches, otherwise
  assigns the matching list to \<^verbatim>\<open>self.registered_list\<close>. A model instance is truthy,
  so \<^verbatim>\<open>not eligible_list\<close> holds exactly for \<^verbatim>\<open>None\<close>.
\<close>

definition clean :: "database \<Rightarrow> Voter \<Rightarrow> error + Voter" where
  "clean db self =
     (case is_eligible_voter db (fullname self) of
        None \<Rightarrow> Inl (ValidationError NotInRegisteredList)
      | Some eligible_list \<Rightarrow> Inr (self\<lparr>registered_list := Some eligible_list\<rparr>))"

text \<open>
  Modelled from the spec: the framework's \<^verbatim>\<open>Model.save\<close>, reached through
  \<^verbatim>\<open>super().save()\<close>, is not among the sources. The spec asks the storage to
  "persist VoterRecord with a uniqueness constraint on fullname, email, telephone, and
  student_id": a row that shares one of the four fields with another row is refused with
  an integrity error and the database stays as it was; otherwise a record without primary
  key is inserted under a fresh key, and a record with a primary key replaces the row of
  that key (or is inserted when there is none).
\<close>

definition unique_clash :: "Voter list \<Rightarrow> Voter \<Rightarrow> bool" where
  "unique_clash rows v =
     list_ex (\<lambda>r. fullname r = fullname v \<or> email r = email v
                 \<or> telephone r = telephone v \<or> student_id r = student_id v) rows"

definition fresh_pk :: "Voter list \<Rightarrow> nat" where
  "fresh_pk rows = Suc (fold (\<lambda>r m. case voter_pk r of None \<Rightarrow> m | Some k \<Rightarrow> max k m) rows 0)"

definition model_save :: "database \<Rightarrow> Voter \<Rightarrow> (error + Voter) \<times> database" where
  "model_save db v =
     (let others = filter (\<lambda>r. voter_pk v = None \<or> voter_pk r \<noteq> voter_pk v) (voters db) in
      if unique_clash others v then (Inl IntegrityError, db)
      else (let v' = (case voter_pk v of
                        None \<Rightarrow> v\<lparr>voter_pk := Some (fresh_pk (voters db))\<rparr>
                      | Some k \<Rightarrow> v)
            in (Inr v', db\<lparr>voters := others @ [v']\<rparr>)))"

text \<open>
  \<^verbatim>\<open>Voter.save\<close>: \<^verbatim>\<open>self.clean()\<close>, then \<^verbatim>\<open>super().save(*args, **kwargs)\<close>. An
  exception raised by \<^verbatim>\<open>clean\<close> leaves the database untouched.
\<close>

definition save :: "database \<Rightarrow> Voter \<Rightarrow> (error + Voter) \<times> database" where
  "save db self =
     (case clean db self of
        Inl e \<Rightarrow> (Inl e, db)
      | Inr self' \<Rightarrow> model_save db self')"

text \<open>
  \<^verbatim>\<open>VoterRegistrationForm.clean_fullname\<close>: a non-empty name that no list matches is
  refused with the form's validation error; the name is returned otherwise.
\<close>

definition clean_fullname :: "database \<Rightarrow> string \<Rightarrow> error + string" where
  "clean_fullname db candidate =
     (if candidate \<noteq> [] then
        (if is_eligible_voter db candidate = None then Inl (ValidationError NotInRegisteredListForm)
         else Inr candidate)
      else Inr candidate)"

section \<open>The contract of the eligibility matcher, in the specification's words\<close>

text \<open>
  The specification describes the matcher through \<open>normalize\<close> ("trims leading/trailing
  whitespace, lower-cases") and \<open>derive_names\<close> ("split on line breaks; for each line,
  trim and lower-case; discard lines that become empty; duplicates collapse"). These two
  definitions follow that wording; the theorems below compare the code with them.
\<close>

definition spec_normalize :: "string \<Rightarrow> string" where
  "spec_normalize name = lower (strip name)"

definition spec_derive_names :: "string \<Rightarrow> string set" where
  "spec_derive_names list_text =
     Set.filter (\<lambda>n. n \<noteq> []) (spec_normalize ` set (split_nl list_text))"

section \<open>Example data\<close>

text \<open>
  The lists and records of the specification's examples: list A holding "Alice", list B
  holding "Bob", the list text of the derivation example, and two registrations.
\<close>

definition list_A :: RegisteredVoter where
  "list_A = \<lparr>list_pk = 1, names = ''Alice''\<rparr>"

definition list_B :: RegisteredVoter where
  "list_B = \<lparr>list_pk = 2, names = ''Bob''\<rparr>"

definition db_AB :: database where
  "db_AB = \<lparr>registered_voters = [list_A, list_B], voters = []\<rparr>"

definition example_list :: RegisteredVoter where
  "example_list =
     \<lparr>list_pk = 1, names = ''John Smith\<newline>Jane Doe\<newline>\<newline>  Michael Johnson  \<newline>''\<rparr>"

definition voter_bob :: Voter where
  "voter_bob = \<lparr>voter_pk = None, fullname = '' BOB '', email = ''bob@example.com'',
                 telephone = ''+1234567890'', student_id = ''S1'', registered_list = None\<rparr>"

definition voter_carol :: Voter where
  "voter_carol = \<lparr>voter_pk = None, fullname = ''carol'', email = ''carol@example.com'',
                   telephone = ''+1234567891'', student_id = ''S2'', registered_list = Some list_A\<rparr>"

text \<open>The record that the first registration leaves in the table.\<close>

definition voter_bob_saved :: Voter where
  "voter_bob_saved = voter_bob\<lparr>voter_pk := Some 1, registered_list := Some list_B\<rparr>"

section \<open>Characters and normalisation\<close>

lemma of_char_lower_char:
  "(of_char (lower_char c) :: nat) = (if is_upper c then of_char c + 32 else of_char c)"
  unfolding lower_char_def is_upper_def Let_def
  by (auto simp: of_char_of)
  
lemma isspace_lower_char: "isspace (lower_char c) = isspace c"
  unfolding isspace_def of_char_lower_char
  by (auto simp: is_upper_def Let_def)

lemma is_upper_lower_char: "\<not> is_upper (lower_char c)"
  using of_char_lower_char[of c]
  by (auto simp: is_upper_def Let_def split: if_splits)

lemma lower_char_idem: "lower_char (lower_char c) = lower_char c"
  using is_upper_lower_char[of c] by (simp add: lower_char_def[of "lower_char c"])

lemma lower_dropWhile: "lower (dropWhile isspace s) = dropWhile isspace (lower s)"
  by (simp add: lower_def dropWhile_map comp_def isspace_lower_char)

lemma lower_rev: "lower (rev s) = rev (lower s)"
  by (simp add: lower_def rev_map)

lemma lower_lstrip: "lower (lstrip s) = lstrip (lower s)"
  by (simp add: lstrip_def lower_dropWhile)

lemma lower_rstrip: "lower (rstrip s) = rstrip (lower s)"
  by (simp add: rstrip_def lower_rev lower_dropWhile)

lemma strip_lower: "strip (lower s) = lower (strip s)"
  by (simp add: strip_def lower_lstrip lower_rstrip)

lemma lower_idem: "lower (lower s) = lower s"
  by (simp add: lower_def lower_char_idem)

lemma lower_Nil_iff: "lower s = [] \<longleftrightarrow> s = []"
  by (simp add: lower_def)

lemma dropWhile_all_iff: "(\<forall>x\<in>set (dropWhile P xs). P x) \<longleftrightarrow> dropWhile P xs = []"
proof
  assume all: "\<forall>x\<in>set (dropWhile P xs). P x"
  show "dropWhile P xs = []"
  proof (rule ccontr)
    assume ne: "dropWhile P xs \<noteq> []"
    then have "\<not> P (hd (dropWhile P xs))" by (rule hd_dropWhile)
    moreover from ne have "hd (dropWhile P xs) \<in> set (dropWhile P xs)" by (rule hd_in_set)
    ultimately show False using all by blast
  qed
next
  assume "dropWhile P xs = []"
  then show "\<forall>x\<in>set (dropWhile P xs). P x" by (simp del: dropWhile_eq_Nil_conv)
qed

lemma strip_Nil_iff: "strip s = [] \<longleftrightarrow> (\<forall>c\<in>set s. isspace c)"
proof -
  have "strip s = [] \<longleftrightarrow> dropWhile isspace (rev (dropWhile isspace s)) = []"
    by (simp add: strip_def lstrip_def rstrip_def del: dropWhile_eq_Nil_conv)
  also have "\<dots> \<longleftrightarrow> (\<forall>c\<in>set (dropWhile isspace s). isspace c)"
    by (simp only: dropWhile_eq_Nil_conv set_rev)
  also have "\<dots> \<longleftrightarrow> dropWhile isspace s = []" by (rule dropWhile_all_iff)
  also have "\<dots> \<longleftrightarrow> (\<forall>c\<in>set s. isspace c)" by (simp only: dropWhile_eq_Nil_conv)
  finally show ?thesis .
qed

lemma strip_fixed:
  assumes "t \<noteq> []" "\<not> isspace (hd t)" "\<not> isspace (last t)"
  shows "strip t = t"
proof -
  from assms have l: "dropWhile isspace t = t" by (cases t) auto
  from assms have "rev t \<noteq> []" "\<not> isspace (hd (rev t))" by (simp_all add: hd_rev)
  then have "dropWhile isspace (rev t) = rev t" by (cases "rev t") auto
  with l show ?thesis by (simp add: strip_def lstrip_def rstrip_def)
qed

lemma strip_ends:
  assumes "strip s \<noteq> []"
  shows "\<not> isspace (hd (strip s)) \<and> \<not> isspace (last (strip s))"
proof -
  let ?l = "dropWhile isspace s"
  let ?r = "dropWhile isspace (rev ?l)"
  from assms have r: "?r \<noteq> []"
    by (simp add: strip_def lstrip_def rstrip_def del: dropWhile_eq_Nil_conv)
  have l: "?l \<noteq> []"
  proof
    assume "?l = []"
    then have "?r = []" by (simp del: dropWhile_eq_Nil_conv)
    with r show False by contradiction
  qed
  from r have "\<not> isspace (hd ?r)" by (rule hd_dropWhile)
  then have last: "\<not> isspace (last (strip s))"
    using r by (simp add: strip_def lstrip_def rstrip_def last_rev)
  from l have hl: "\<not> isspace (hd ?l)" by (rule hd_dropWhile)
  obtain ys where ys: "rev ?l = ys @ ?r" 
    by (metis takeWhile_dropWhile_id)
  then have eq: "?l = rev ?r @ rev ys" by (metis rev_append rev_rev_ident)
  from r have "rev ?r \<noteq> []" by (simp only: rev_is_Nil_conv not_False_eq_True)
  with eq have "hd ?l = hd (rev ?r)" by (metis hd_append2)
  with hl have "\<not> isspace (hd (strip s))" by (simp add: strip_def lstrip_def rstrip_def)
  with last show ?thesis by simp
qed

lemma strip_idem: "strip (strip s) = strip s"
proof (cases "strip s = []")
  case True
  have "strip [] = []" by (simp add: strip_def lstrip_def rstrip_def)
  with True show ?thesis by simp
next
  case False
  with strip_ends[OF False] show ?thesis by (simp add: strip_fixed)
qed


section \<open>The derived names and the scan over the lists\<close>

lemma strip_Nil: "strip [] = []"
  by (simp add: strip_def lstrip_def rstrip_def)

lemma filter_split_nl_Nil:
  "filter (\<lambda>name. strip name \<noteq> []) (split_nl []) = []"
  by (simp add: strip_Nil)

lemma get_eligible_names_eq:
  "get_eligible_names self =
     map (\<lambda>name. lower (strip name)) (filter (\<lambda>name. strip name \<noteq> []) (split_nl (names self)))"
proof (cases "names self = []")
  case True
  then show ?thesis by (simp only: get_eligible_names_def filter_split_nl_Nil) simp
next
  case False
  then show ?thesis by (simp add: get_eligible_names_def)
qed

lemma set_get_eligible_names:
  "set (get_eligible_names self) =
     {lower (strip line) | line. line \<in> set (split_nl (names self)) \<and> strip line \<noteq> []}"
  by (auto simp: get_eligible_names_eq)

lemma get_eligible_names_refines:
  "set (get_eligible_names self) = spec_derive_names (names self)"
  by (auto simp: set_get_eligible_names spec_derive_names_def spec_normalize_def lower_Nil_iff)

lemma candidate_normalize: "strip (lower candidate) = spec_normalize candidate"
  by (simp add: spec_normalize_def strip_lower)

lemma is_member_refines:
  "is_member candidate voter_list \<longleftrightarrow> spec_normalize candidate \<in> spec_derive_names (names voter_list)"
  by (simp add: is_member_def get_eligible_names_refines candidate_normalize)

lemma eligible_name_fixed:
  assumes "n \<in> set (get_eligible_names self)"
  shows "n \<noteq> [] \<and> strip n = n \<and> lower n = n"
proof -
  from assms obtain line where n: "n = lower (strip line)" and ne: "strip line \<noteq> []"
    by (auto simp: set_get_eligible_names)
  from ne have "n \<noteq> []" by (simp add: n lower_Nil_iff)
  moreover have "strip n = n" by (simp add: n strip_lower strip_idem)
  moreover have "lower n = n" by (simp add: n lower_idem)
  ultimately show ?thesis by simp
qed

lemma loop_None_iff:
  "is_eligible_voter_loop rvs candidate = None \<longleftrightarrow> (\<forall>l\<in>set rvs. \<not> is_member candidate l)"
  by (induction rvs) auto

lemma loop_Some_iff:
  "is_eligible_voter_loop rvs candidate = Some l \<longleftrightarrow>
     (\<exists>i<length rvs. rvs ! i = l \<and> is_member candidate l
        \<and> (\<forall>j<i. \<not> is_member candidate (rvs ! j)))"
proof (induction rvs)
  case Nil
  then show ?case by simp
next
  case (Cons a rvs)
  show ?case
  proof (cases "is_member candidate a")
    case True
    have "(\<exists>i<length (a # rvs). (a # rvs) ! i = l \<and> is_member candidate l
        \<and> (\<forall>j<i. \<not> is_member candidate ((a # rvs) ! j))) \<longleftrightarrow> a = l"
    proof
      assume "\<exists>i<length (a # rvs). (a # rvs) ! i = l \<and> is_member candidate l
        \<and> (\<forall>j<i. \<not> is_member candidate ((a # rvs) ! j))"
      then obtain i where i: "(a # rvs) ! i = l" "\<forall>j<i. \<not> is_member candidate ((a # rvs) ! j)"
        by blast
      have "i = 0"
      proof (rule ccontr)
        assume "i \<noteq> 0"
        then have "0 < i" by simp
        with i(2) have "\<not> is_member candidate ((a # rvs) ! 0)" by blast
        with True show False by simp
      qed
      with i(1) show "a = l" by simp
    next
      assume "a = l"
      with True have "(a # rvs) ! 0 = l \<and> is_member candidate l
        \<and> (\<forall>j<0. \<not> is_member candidate ((a # rvs) ! j))" by simp
      then show "\<exists>i<length (a # rvs). (a # rvs) ! i = l \<and> is_member candidate l
        \<and> (\<forall>j<i. \<not> is_member candidate ((a # rvs) ! j))" by (intro exI[of _ 0]) simp
    qed
    with True show ?thesis by simp
  next
    case False
    have "(\<exists>i<length (a # rvs). (a # rvs) ! i = l \<and> is_member candidate l
        \<and> (\<forall>j<i. \<not> is_member candidate ((a # rvs) ! j))) \<longleftrightarrow>
      (\<exists>i<length rvs. rvs ! i = l \<and> is_member candidate l
        \<and> (\<forall>j<i. \<not> is_member candidate (rvs ! j)))" (is "?L \<longleftrightarrow> ?R")
    proof
      assume ?L
      then obtain i where i: "i < length (a # rvs)" "(a # rvs) ! i = l" "is_member candidate l"
         "\<forall>j<i. \<not> is_member candidate ((a # rvs) ! j)" by blast
      from i(2,3) False have "i \<noteq> 0" by (cases i) auto
      then obtain k where k: "i = Suc k" by (cases i) auto
      have "\<forall>j<k. \<not> is_member candidate (rvs ! j)"
      proof (intro allI impI)
        fix j assume "j < k"
        then have "Suc j < i" by (simp add: k)
        with i(4) have "\<not> is_member candidate ((a # rvs) ! Suc j)" by blast
        then show "\<not> is_member candidate (rvs ! j)" by simp
      qed
      with i k show ?R by (intro exI[of _ k]) simp
    next
      assume ?R
      then obtain k where k: "k < length rvs" "rvs ! k = l" "is_member candidate l"
         "\<forall>j<k. \<not> is_member candidate (rvs ! j)" by blast
      have "\<forall>j<Suc k. \<not> is_member candidate ((a # rvs) ! j)"
      proof (intro allI impI)
        fix j assume "j < Suc k"
        then show "\<not> is_member candidate ((a # rvs) ! j)"
          using False k(4) by (cases j) auto
      qed
      with k show ?L by (intro exI[of _ "Suc k"]) simp
    qed
    with False Cons.IH show ?thesis by simp
  qed
qed

lemma no_empty_eligible_name: "[] \<notin> set (get_eligible_names self)"
  using eligible_name_fixed by blast

lemma is_eligible_voter_None_iff:
  "is_eligible_voter db candidate = None \<longleftrightarrow>
     (\<forall>l\<in>set (registered_voters db). spec_normalize candidate \<notin> spec_derive_names (names l))"
  by (simp add: is_eligible_voter_def loop_None_iff is_member_refines)

lemma is_eligible_voter_Some_iff:
  "is_eligible_voter db candidate = Some l \<longleftrightarrow>
     (\<exists>i<length (registered_voters db). registered_voters db ! i = l
        \<and> spec_normalize candidate \<in> spec_derive_names (names l)
        \<and> (\<forall>j<i. spec_normalize candidate \<notin> spec_derive_names (names (registered_voters db ! j))))"
  by (simp add: is_eligible_voter_def loop_Some_iff is_member_refines)


lemma whitespace_candidate_no_member:
  assumes "\<forall>c\<in>set candidate. isspace c"
  shows "\<not> is_member candidate voter_list"
proof -
  from assms have "strip candidate = []" by (simp only: strip_Nil_iff)
  then have "strip (lower candidate) = []" by (simp add: strip_lower lower_Nil_iff)
  then show ?thesis by (simp add: is_member_def no_empty_eligible_name)
qed

lemma whitespace_candidate_no_match:
  assumes "\<forall>c\<in>set candidate. isspace c"
  shows "is_eligible_voter db candidate = None"
  using assms by (simp add: is_eligible_voter_def loop_None_iff whitespace_candidate_no_member)

lemma spec_normalize_idem: "spec_normalize (spec_normalize s) = spec_normalize s"
  by (simp add: spec_normalize_def strip_lower strip_idem lower_idem)

lemma same_normal_form_is_member:
  assumes "line \<in> set (split_nl (names voter_list))"
    and "spec_normalize line = spec_normalize candidate"
    and "spec_normalize candidate \<noteq> []"
  shows "is_member candidate voter_list"
proof -
  from assms(1,2) have "spec_normalize candidate \<in> spec_normalize ` set (split_nl (names voter_list))"
    by (metis imageI)
  with assms(3) have "spec_normalize candidate \<in> spec_derive_names (names voter_list)"
    by (simp add: spec_derive_names_def)
  then show ?thesis by (simp add: is_member_refines)
qed

section \<open>Validation and saving\<close>

lemma save_no_match:
  assumes "is_eligible_voter db (fullname self) = None"
  shows "save db self = (Inl (ValidationError NotInRegisteredList), db)"
  using assms by (simp add: save_def clean_def)

lemma model_save_error: "fst (model_save db v) \<noteq> Inl (ValidationError m)"
  by (simp add: model_save_def Let_def)

lemma save_match:
  assumes "is_eligible_voter db (fullname self) = Some l"
  shows "save db self = model_save db (self\<lparr>registered_list := Some l\<rparr>)"
  using assms by (simp add: save_def clean_def)

lemma model_save_Inr:
  assumes "model_save db v = (Inr v', db')"
  shows "registered_list v' = registered_list v \<and> fullname v' = fullname v \<and> v' \<in> set (voters db')
         \<and> registered_voters db' = registered_voters db"
  using assms by (auto simp: model_save_def Let_def split: if_splits option.splits)

lemma model_save_Inl:
  assumes "model_save db v = (Inl e, db')"
  shows "db' = db"
  using assms by (auto simp: model_save_def Let_def split: if_splits option.splits)

lemma clean_fullname_refuses_iff:
  "candidate \<noteq> [] \<Longrightarrow>
     clean_fullname db candidate = Inl (ValidationError NotInRegisteredListForm) \<longleftrightarrow>
       is_eligible_voter db candidate = None"
  by (simp add: clean_fullname_def)

section \<open>The claims\<close>

text \<open>
  C1. \<^verbatim>\<open>find_matching_list\<close>, which the code implements as
  \<^verbatim>\<open>Voter.is_eligible_voter\<close>, normalises the candidate, walks the lists in the order
  of retrieval and returns the first list whose derived name set holds the normalised
  candidate; it returns \<open>None\<close> exactly when no list's derived set holds it. With list A
  holding "Alice" and list B holding "Bob", the query "bob" yields B and the query "carol"
  yields no match.
\<close>

theorem find_matching_list_first_match:
  "(is_eligible_voter db candidate = None \<longleftrightarrow>
      (\<forall>l\<in>set (registered_voters db). spec_normalize candidate \<notin> spec_derive_names (names l)))
   \<and> (\<forall>l. is_eligible_voter db candidate = Some l \<longleftrightarrow>
      (\<exists>i<length (registered_voters db). registered_voters db ! i = l
        \<and> spec_normalize candidate \<in> spec_derive_names (names l)
        \<and> (\<forall>j<i. spec_normalize candidate \<notin> spec_derive_names (names (registered_voters db ! j)))))
   \<and> is_eligible_voter db_AB ''bob'' = Some list_B
   \<and> is_eligible_voter db_AB ''carol'' = None"
proof (intro conjI allI)
  show "is_eligible_voter db_AB ''bob'' = Some list_B" by code_simp
  show "is_eligible_voter db_AB ''carol'' = None" by code_simp
qed (rule is_eligible_voter_None_iff is_eligible_voter_Some_iff)+

theorem find_matching_list_first_match_witness:
  "(\<exists>i<length (registered_voters db_AB). registered_voters db_AB ! i = list_B
        \<and> spec_normalize ''bob'' \<in> spec_derive_names (names list_B)
        \<and> (\<forall>j<i. spec_normalize ''bob'' \<notin> spec_derive_names (names (registered_voters db_AB ! j))))
   \<and> spec_normalize ''carol'' \<notin> spec_derive_names (names list_A)
   \<and> spec_normalize ''carol'' \<notin> spec_derive_names (names list_B)"
proof -
  have lists: "registered_voters db_AB = [list_A, list_B]" by (simp add: db_AB_def)
  from find_matching_list_first_match [of db_AB "''bob''"]
  have bob: "\<exists>i<length (registered_voters db_AB). registered_voters db_AB ! i = list_B
        \<and> spec_normalize ''bob'' \<in> spec_derive_names (names list_B)
        \<and> (\<forall>j<i. spec_normalize ''bob'' \<notin> spec_derive_names (names (registered_voters db_AB ! j)))"
    by blast
  note carol = find_matching_list_first_match [of db_AB "''carol''"]
  from carol have none: "is_eligible_voter db_AB ''carol'' = None" by (elim conjE)
  from carol have "is_eligible_voter db_AB ''carol'' = None \<longleftrightarrow>
      (\<forall>l\<in>set (registered_voters db_AB). spec_normalize ''carol'' \<notin> spec_derive_names (names l))"
    by (elim conjE)
  from this none
  have "\<forall>l\<in>set (registered_voters db_AB). spec_normalize ''carol'' \<notin> spec_derive_names (names l)"
    by (rule iffD1)
  then have "spec_normalize ''carol'' \<notin> spec_derive_names (names list_A)
    \<and> spec_normalize ''carol'' \<notin> spec_derive_names (names list_B)"
    by (simp add: lists)
  with bob show ?thesis by blast
qed

text \<open>
  C2. Saving a record whose name no list matches raises the validation error of
  \<^verbatim>\<open>Voter.clean\<close> and leaves the database as it was; that error is raised if and only
  if no list's derived name set holds the normalised name; the save changes the database,
  or returns a saved record, only when some list matches.
\<close>

theorem save_not_eligible:
  "(fst (save db self) = Inl (ValidationError NotInRegisteredList) \<longleftrightarrow>
      (\<forall>l\<in>set (registered_voters db).
          spec_normalize (fullname self) \<notin> spec_derive_names (names l)))
   \<and> ((\<forall>l\<in>set (registered_voters db).
          spec_normalize (fullname self) \<notin> spec_derive_names (names l))
        \<longrightarrow> save db self = (Inl (ValidationError NotInRegisteredList), db))
   \<and> (snd (save db self) \<noteq> db \<or> (\<exists>v. fst (save db self) = Inr v)
        \<longrightarrow> (\<exists>l\<in>set (registered_voters db).
               spec_normalize (fullname self) \<in> spec_derive_names (names l)))"
proof -
  let ?none = "\<forall>l\<in>set (registered_voters db).
          spec_normalize (fullname self) \<notin> spec_derive_names (names l)"
  have none: "?none \<longleftrightarrow> is_eligible_voter db (fullname self) = None"
    by (simp only: is_eligible_voter_None_iff)
  have a: "?none \<longrightarrow> save db self = (Inl (ValidationError NotInRegisteredList), db)"
    using none save_no_match by blast
  have b: "fst (save db self) = Inl (ValidationError NotInRegisteredList) \<longrightarrow> ?none"
  proof
    assume e: "fst (save db self) = Inl (ValidationError NotInRegisteredList)"
    show ?none
    proof (cases "is_eligible_voter db (fullname self)")
      case None
      with none show ?thesis by blast
    next
      case (Some l)
      then have "save db self = model_save db (self\<lparr>registered_list := Some l\<rparr>)"
        by (rule save_match)
      with e model_save_error show ?thesis by metis
    qed
  qed
  have c: "snd (save db self) \<noteq> db \<or> (\<exists>v. fst (save db self) = Inr v) \<longrightarrow> \<not> ?none"
  proof (intro impI notI)
    assume ch: "snd (save db self) \<noteq> db \<or> (\<exists>v. fst (save db self) = Inr v)" and n: ?none
    from n a have "save db self = (Inl (ValidationError NotInRegisteredList), db)" by blast
    with ch show False by simp
  qed
  have a': "?none \<longrightarrow> fst (save db self) = Inl (ValidationError NotInRegisteredList)"
  proof
    assume ?none
    with a have "save db self = (Inl (ValidationError NotInRegisteredList), db)" by blast
    then show "fst (save db self) = Inl (ValidationError NotInRegisteredList)" by simp
  qed
  from a' b have ab: "fst (save db self) = Inl (ValidationError NotInRegisteredList) \<longleftrightarrow> ?none"
    by blast
  from c have c': "snd (save db self) \<noteq> db \<or> (\<exists>v. fst (save db self) = Inr v)
        \<longrightarrow> (\<exists>l\<in>set (registered_voters db).
               spec_normalize (fullname self) \<in> spec_derive_names (names l))"
    by blast
  from ab a c' show ?thesis by (intro conjI)
qed

theorem save_not_eligible_witness:
  "spec_normalize (fullname voter_carol) \<notin> spec_derive_names (names list_A)
   \<and> spec_normalize (fullname voter_carol) \<notin> spec_derive_names (names list_B)
   \<and> save db_AB voter_carol = (Inl (ValidationError NotInRegisteredList), db_AB)
   \<and> fst (save db_AB voter_bob) = Inr voter_bob_saved
   \<and> (\<exists>l\<in>set (registered_voters db_AB).
         spec_normalize (fullname voter_bob) \<in> spec_derive_names (names l))"
proof -
  have lists: "registered_voters db_AB = [list_A, list_B]" by (simp add: db_AB_def)
  have c: "spec_normalize (fullname voter_carol) \<notin> spec_derive_names (names list_A)
   \<and> spec_normalize (fullname voter_carol) \<notin> spec_derive_names (names list_B)" by code_simp
  then have "\<forall>l\<in>set (registered_voters db_AB).
          spec_normalize (fullname voter_carol) \<notin> spec_derive_names (names l)"
    by (simp add: lists)
  with save_not_eligible [of db_AB voter_carol]
  have carol: "save db_AB voter_carol = (Inl (ValidationError NotInRegisteredList), db_AB)"
    by blast
  have b: "fst (save db_AB voter_bob) = Inr voter_bob_saved" by code_simp
  then have "snd (save db_AB voter_bob) \<noteq> db_AB \<or> (\<exists>v. fst (save db_AB voter_bob) = Inr v)"
    by blast
  with save_not_eligible [of db_AB voter_bob]
  have "\<exists>l\<in>set (registered_voters db_AB).
         spec_normalize (fullname voter_bob) \<in> spec_derive_names (names l)"
    by blast
  with c carol b show ?thesis by blast
qed

text \<open>
  C3. After a successful save the record carries a reference to one list, the first list
  in the order of retrieval whose derived names hold the normalised name; the saved record
  is in the table; and the reference is assigned by the save, whatever the caller had put
  into \<^verbatim>\<open>registered_list\<close>.
\<close>

theorem save_assigns_first_match:
  assumes "save db self = (Inr self', db')"
  shows "(\<exists>i<length (registered_voters db).
            registered_list self' = Some (registered_voters db ! i)
          \<and> spec_normalize (fullname self) \<in> spec_derive_names (names (registered_voters db ! i))
          \<and> (\<forall>j<i. spec_normalize (fullname self)
                      \<notin> spec_derive_names (names (registered_voters db ! j))))
         \<and> self' \<in> set (voters db')
         \<and> save db (self\<lparr>registered_list := r\<rparr>) = (Inr self', db')"
proof -
  obtain l where l: "is_eligible_voter db (fullname self) = Some l"
  proof (cases "is_eligible_voter db (fullname self)")
    case None
    then have "save db self = (Inl (ValidationError NotInRegisteredList), db)" by (rule save_no_match)
    with assms show ?thesis by simp
  next
    case (Some l)
    with that show ?thesis .
  qed
  then have s: "save db self = model_save db (self\<lparr>registered_list := Some l\<rparr>)" by (rule save_match)
  with assms have m: "model_save db (self\<lparr>registered_list := Some l\<rparr>) = (Inr self', db')" by simp
  from model_save_Inr[OF m] have rl: "registered_list self' = Some l" and mem: "self' \<in> set (voters db')"
    by simp_all
  from l obtain i where i: "i < length (registered_voters db)" "registered_voters db ! i = l"
     "spec_normalize (fullname self) \<in> spec_derive_names (names l)"
     "\<forall>j<i. spec_normalize (fullname self) \<notin> spec_derive_names (names (registered_voters db ! j))"
    unfolding is_eligible_voter_Some_iff by blast
  from l have "is_eligible_voter db (fullname (self\<lparr>registered_list := r\<rparr>)) = Some l" by simp
  then have "save db (self\<lparr>registered_list := r\<rparr>) = model_save db (self\<lparr>registered_list := r, registered_list := Some l\<rparr>)"
    by (rule save_match)
  with m have r: "save db (self\<lparr>registered_list := r\<rparr>) = (Inr self', db')" by simp
  from i rl have "\<exists>i<length (registered_voters db).
            registered_list self' = Some (registered_voters db ! i)
          \<and> spec_normalize (fullname self) \<in> spec_derive_names (names (registered_voters db ! i))
          \<and> (\<forall>j<i. spec_normalize (fullname self)
                      \<notin> spec_derive_names (names (registered_voters db ! j)))"
    by blast
  with mem r show ?thesis by blast
qed

theorem save_assigns_first_match_witness:
  "save db_AB voter_bob = (Inr voter_bob_saved, db_AB\<lparr>voters := [voter_bob_saved]\<rparr>)
   \<and> (\<exists>i<length (registered_voters db_AB).
            registered_list voter_bob_saved = Some (registered_voters db_AB ! i)
          \<and> spec_normalize (fullname voter_bob)
               \<in> spec_derive_names (names (registered_voters db_AB ! i))
          \<and> (\<forall>j<i. spec_normalize (fullname voter_bob)
                      \<notin> spec_derive_names (names (registered_voters db_AB ! j))))
   \<and> voter_bob_saved \<in> set (voters (db_AB\<lparr>voters := [voter_bob_saved]\<rparr>))
   \<and> save db_AB (voter_bob\<lparr>registered_list := Some list_A\<rparr>)
       = (Inr voter_bob_saved, db_AB\<lparr>voters := [voter_bob_saved]\<rparr>)"
proof -
  have h: "save db_AB voter_bob = (Inr voter_bob_saved, db_AB\<lparr>voters := [voter_bob_saved]\<rparr>)"
    by code_simp
  from h save_assigns_first_match [OF h, of "Some list_A"] show ?thesis by blast
qed



text \<open>
  C5. The membership check on one list is \<open>normalize(candidate) in derive_names(text)\<close>,
  and it holds whenever some line of the raw text and the candidate have the same,
  non-empty, normal form: surrounding whitespace and letter case count on neither side. In
  particular it holds when the normalised candidate itself is a non-empty line of the text.
\<close>

theorem is_member_normalized:
  "(is_member candidate voter_list \<longleftrightarrow>
      spec_normalize candidate \<in> spec_derive_names (names voter_list))
   \<and> (line \<in> set (split_nl (names voter_list)) \<and> spec_normalize line = spec_normalize candidate
        \<and> spec_normalize candidate \<noteq> [] \<longrightarrow> is_member candidate voter_list)
   \<and> (spec_normalize candidate \<in> set (split_nl (names voter_list))
        \<and> spec_normalize candidate \<noteq> [] \<longrightarrow> is_member candidate voter_list)"
proof (intro conjI impI)
  show "is_member candidate voter_list \<longleftrightarrow>
      spec_normalize candidate \<in> spec_derive_names (names voter_list)"
    by (rule is_member_refines)
next
  assume "line \<in> set (split_nl (names voter_list)) \<and> spec_normalize line = spec_normalize candidate
        \<and> spec_normalize candidate \<noteq> []"
  then show "is_member candidate voter_list" using same_normal_form_is_member by blast
next
  assume "spec_normalize candidate \<in> set (split_nl (names voter_list))
        \<and> spec_normalize candidate \<noteq> []"
  then show "is_member candidate voter_list"
    using same_normal_form_is_member [of "spec_normalize candidate" voter_list candidate]
    by (simp add: spec_normalize_idem)
qed

theorem is_member_normalized_witness:
  "''  Michael Johnson  '' \<in> set (split_nl (names example_list))
   \<and> spec_normalize ''  Michael Johnson  '' = spec_normalize ''MICHAEL johnson ''
   \<and> spec_normalize ''MICHAEL johnson '' \<noteq> []
   \<and> is_member ''MICHAEL johnson '' example_list"
proof -
  have h: "''  Michael Johnson  '' \<in> set (split_nl (names example_list))
   \<and> spec_normalize ''  Michael Johnson  '' = spec_normalize ''MICHAEL johnson ''
   \<and> spec_normalize ''MICHAEL johnson '' \<noteq> []" by code_simp
  with is_member_normalized [of "''MICHAEL johnson ''" example_list "''  Michael Johnson  ''"]
  show ?thesis by blast
qed

text \<open>
  C6. The candidate side, \<^verbatim>\<open>fullname.lower().strip()\<close>, and the entry side,
  \<^verbatim>\<open>name.strip().lower()\<close>, are the same normalisation: for every string the two
  orders of trimming and lower-casing give the same result.
\<close>

theorem normalize_sides_agree: "strip (lower s) = lower (strip s)"
  by (rule strip_lower)

text \<open>
  C7. The list text of the specification's example derives to "john smith", "jane doe"
  and "michael johnson" and nothing else; the candidate " john SMITH " matches that list
  and the candidate "Jon Smith" does not.
\<close>

theorem example_list_derivation:
  "get_eligible_names example_list = [''john smith'', ''jane doe'', ''michael johnson'']
   \<and> set (get_eligible_names example_list) = {''john smith'', ''jane doe'', ''michael johnson''}
   \<and> spec_derive_names (names example_list) = {''john smith'', ''jane doe'', ''michael johnson''}
   \<and> is_member '' john SMITH '' example_list
   \<and> is_eligible_voter \<lparr>registered_voters = [example_list], voters = []\<rparr> '' john SMITH ''
       = Some example_list
   \<and> \<not> is_member ''Jon Smith'' example_list
   \<and> is_eligible_voter \<lparr>registered_voters = [example_list], voters = []\<rparr> ''Jon Smith'' = None"
  by code_simp

text \<open>
  C8. Deriving the names is deterministic: the result is a function of the text alone, so
  identical text gives the identical result, whichever list object holds it.
\<close>

theorem derive_names_deterministic:
  "names a = names b \<Longrightarrow> get_eligible_names a = get_eligible_names b"
  by (simp add: get_eligible_names_def)

theorem derive_names_deterministic_witness:
  "names list_B = names (list_B\<lparr>list_pk := 7\<rparr>)
   \<and> get_eligible_names list_B = get_eligible_names (list_B\<lparr>list_pk := 7\<rparr>)"
proof -
  have h: "names list_B = names (list_B\<lparr>list_pk := 7\<rparr>)" by simp
  from h derive_names_deterministic [OF h] show ?thesis by simp
qed

text \<open>
  C9. The empty candidate normalises to the empty string, and it matches only if some list
  has a line that is empty after trimming. The theorem states the second part by
  contraposition: when no line of any list is empty after trimming, the empty candidate
  matches no list.
\<close>

theorem empty_candidate_matches_only_empty_line:
  "spec_normalize [] = [] \<and> strip (lower []) = []
   \<and> ((\<forall>l\<in>set (registered_voters db). \<forall>line\<in>set (split_nl (names l)). strip line \<noteq> [])
        \<longrightarrow> is_eligible_voter db [] = None)"
proof (intro conjI impI)
  show "spec_normalize [] = []" by (simp add: spec_normalize_def strip_Nil lower_def)
  show "strip (lower []) = []" by (simp add: strip_Nil lower_def)
  show "is_eligible_voter db [] = None" by (rule whitespace_candidate_no_match) simp
qed

theorem empty_candidate_matches_only_empty_line_witness:
  "strip ''Alice'' \<noteq> [] \<and> strip ''Bob'' \<noteq> []
   \<and> split_nl (names list_A) = [''Alice''] \<and> split_nl (names list_B) = [''Bob'']
   \<and> is_eligible_voter db_AB [] = None"
proof -
  have h: "strip ''Alice'' \<noteq> [] \<and> strip ''Bob'' \<noteq> []
   \<and> split_nl (names list_A) = [''Alice''] \<and> split_nl (names list_B) = [''Bob'']" by code_simp
  have lists: "registered_voters db_AB = [list_A, list_B]" by (simp add: db_AB_def)
  from h have "\<forall>l\<in>set (registered_voters db_AB). \<forall>line\<in>set (split_nl (names l)). strip line \<noteq> []"
    by (simp add: lists)
  with empty_candidate_matches_only_empty_line [of db_AB] h show ?thesis by blast
qed

text \<open>
  C10. Every derived name is non-empty and a fixed point of the normalisation, in either
  order of trimming and lower-casing; hence a candidate that is empty or consists of
  whitespace only matches no list, whatever the lists hold.
\<close>

theorem eligible_names_normal_form:
  "(\<forall>n\<in>set (get_eligible_names self). n \<noteq> [] \<and> lower (strip n) = n \<and> strip (lower n) = n)
   \<and> ((\<forall>c\<in>set candidate. isspace c) \<longrightarrow> is_eligible_voter db candidate = None)"
proof
  show "\<forall>n\<in>set (get_eligible_names self). n \<noteq> [] \<and> lower (strip n) = n \<and> strip (lower n) = n"
  proof
    fix n assume "n \<in> set (get_eligible_names self)"
    then have "n \<noteq> [] \<and> strip n = n \<and> lower n = n" by (rule eligible_name_fixed)
    then show "n \<noteq> [] \<and> lower (strip n) = n \<and> strip (lower n) = n" by simp
  qed
next
  show "(\<forall>c\<in>set candidate. isspace c) \<longrightarrow> is_eligible_voter db candidate = None"
    using whitespace_candidate_no_match by blast
qed

theorem eligible_names_normal_form_witness:
  "''michael johnson'' \<in> set (get_eligible_names example_list)
   \<and> lower (strip ''michael johnson'') = ''michael johnson''
   \<and> strip (lower ''michael johnson'') = ''michael johnson''
   \<and> isspace (CHR '' '') \<and> isspace (CHR 0x09)
   \<and> is_eligible_voter \<lparr>registered_voters = [example_list], voters = []\<rparr> [CHR '' '', CHR 0x09] = None"
proof -
  have m: "''michael johnson'' \<in> set (get_eligible_names example_list)" by code_simp
  have sp: "isspace (CHR '' '') \<and> isspace (CHR 0x09)" by code_simp
  then have all: "\<forall>c\<in>set [CHR '' '', CHR 0x09]. isspace c" by simp
  note t = eligible_names_normal_form [of example_list "[CHR '' '', CHR 0x09]"
             "\<lparr>registered_voters = [example_list], voters = []\<rparr>"]
  from t m have "lower (strip ''michael johnson'') = ''michael johnson''
   \<and> strip (lower ''michael johnson'') = ''michael johnson''" by blast
  moreover from t all
  have "is_eligible_voter \<lparr>registered_voters = [example_list], voters = []\<rparr> [CHR '' '', CHR 0x09] = None"
    by blast
  ultimately show ?thesis using m sp by blast
qed

end
